theory Spec2Isabelle
  imports Main "HOL-Library.Char_ord" "HOL-Library.List_Lexorder" "HOL-Library.Sublist"
    "HOL-Library.AList"
begin

section \<open>The file system that \<open>sync.Dirs\<close> runs against\<close>

text \<open>
  A path is the list of its components (\<open>a/b/c\<close> is \<open>[''a'', ''b'', ''c'']\<close>, the root
  directory is \<open>[]\<close>), so that \<open>filepath.Join\<close> is append and \<open>filepath.Dir\<close> is
  \<open>butlast\<close>.

  The source tree is only read by \<open>Dirs\<close>; the destination is read and written. The
  embedding covers runs whose source and destination trees are disjoint, and keeps the
  two sides apart: the source side is a table of files, directories and symbolic links,
  the destination side a table of files and directories. Symbolic links on the
  destination side (which \<open>os.Create\<close>, \<open>os.Stat\<close>, \<open>os.Chtimes\<close> and \<open>os.Chmod\<close> would
  follow) are outside the embedding.

  A file carries its bytes, its modification time and its permission bits; a directory
  its permission bits, modification time and the size the system reports for it (they
  are kept as recorded); a symbolic link its target and modification time.
\<close>

type_synonym path = "string list"

datatype errno = ENOENT | ENOTDIR | EISDIR | EEXIST | EACCES | EIO | ENOSPC | ELOOP

text \<open>
  \<open>PathError op path errno\<close> is Go's \<open>*os.PathError\<close>; \<open>Wrap msg e\<close> is
  \<open>fmt.Errorf(msg + ": %w", e)\<close> and \<open>WrapPath msg p e\<close> is
  \<open>fmt.Errorf(msg + " %s: %w", p, e)\<close>.
\<close>

datatype error =
    PathError string path errno
  | Wrap string error
  | WrapPath string path error

datatype srcEnt = SFile string int nat | SDir nat int nat | SLink string int

datatype ent = File string int nat | Dir nat int nat

type_synonym srcfs = "(path \<times> srcEnt) list"
type_synonym fsys = "(path \<times> ent) list"

record fileInfo =
  Size :: nat
  ModTime :: int
  IsDir :: bool
  Mode :: nat

text \<open>
  What the run cannot decide from the shape of the two trees comes from the environment:
  \<open>faults op p\<close> is the error, if any, with which the system call \<open>op\<close> fails on path
  \<open>p\<close> (a permission denied, an I/O error, a full disk); \<open>now\<close> is the clock and
  \<open>dirSize\<close> the size reported for a fresh directory. The process umask is taken to be 0:
  an entry is recorded with the permission bits the call asks for.
\<close>

record env =
  faults :: "string \<Rightarrow> path \<Rightarrow> errno option"
  now :: int
  dirSize :: nat

definition perm755 :: nat where
  "perm755 = 7 * 64 + 5 * 8 + 5"

definition perm666 :: nat where
  "perm666 = 6 * 64 + 6 * 8 + 6"

fun isDir :: "ent \<Rightarrow> bool" where
  "isDir (Dir m t s) = True"
| "isDir (File c t m) = False"

fun srcIsDir :: "srcEnt \<Rightarrow> bool" where
  "srcIsDir (SDir m t s) = True"
| "srcIsDir (SFile c t m) = False"
| "srcIsDir (SLink g t) = False"

fun srcIsLink :: "srcEnt \<Rightarrow> bool" where
  "srcIsLink (SLink g t) = True"
| "srcIsLink (SFile c t m) = False"
| "srcIsLink (SDir m t s) = False"

fun srcEntInfo :: "srcEnt \<Rightarrow> fileInfo" where
  "srcEntInfo (SFile c t m) = \<lparr>Size = length c, ModTime = t, IsDir = False, Mode = m\<rparr>"
| "srcEntInfo (SDir m t s) = \<lparr>Size = s, ModTime = t, IsDir = True, Mode = m\<rparr>"
| "srcEntInfo (SLink g t) = \<lparr>Size = length g, ModTime = t, IsDir = False, Mode = 7 * 64 + 7 * 8 + 7\<rparr>"

fun info :: "ent \<Rightarrow> fileInfo" where
  "info (File c t m) = \<lparr>Size = length c, ModTime = t, IsDir = False, Mode = m\<rparr>"
| "info (Dir m t s) = \<lparr>Size = s, ModTime = t, IsDir = True, Mode = m\<rparr>"

subsection \<open>\<open>os.Mkdir\<close>, \<open>os.MkdirAll\<close>, \<open>os.Create\<close>, \<open>os.Chtimes\<close>, \<open>os.Chmod\<close>, \<open>os.RemoveAll\<close>\<close>

definition mkdir :: "env \<Rightarrow> fsys \<Rightarrow> path \<Rightarrow> nat \<Rightarrow> error + fsys" where
  "mkdir e fs p perm =
     (case faults e ''mkdir'' p of
        Some en \<Rightarrow> Inl (PathError ''mkdir'' p en)
      | None \<Rightarrow>
         (case map_of fs p of
            Some x \<Rightarrow> Inl (PathError ''mkdir'' p EEXIST)
          | None \<Rightarrow>
             (case map_of fs (butlast p) of
                None \<Rightarrow> Inl (PathError ''mkdir'' p ENOENT)
              | Some (File c t m) \<Rightarrow> Inl (PathError ''mkdir'' p ENOTDIR)
              | Some (Dir m t s) \<Rightarrow> Inr (fs @ [(p, Dir perm (now e) (dirSize e))]))))"

text \<open>
  \<open>os.MkdirAll\<close>: a path that is a directory is left alone, a path that is a file is
  \<open>ENOTDIR\<close>; otherwise the parent is made first (for a path that has one) and then the
  directory itself; when that \<open>Mkdir\<close> fails on a path that is a directory after all,
  the call succeeds.
\<close>

function mkdirAll :: "env \<Rightarrow> fsys \<Rightarrow> path \<Rightarrow> nat \<Rightarrow> error option \<times> fsys" where
  "mkdirAll e fs p perm =
     (case map_of fs p of
        Some (Dir m t s) \<Rightarrow> (None, fs)
      | Some (File c t m) \<Rightarrow> (Some (PathError ''mkdir'' p ENOTDIR), fs)
      | None \<Rightarrow>
         (case (if p = [] then (None, fs) else mkdirAll e fs (butlast p) perm) of
            (Some err, fs') \<Rightarrow> (Some err, fs')
          | (None, fs') \<Rightarrow>
             (case mkdir e fs' p perm of
                Inr fs'' \<Rightarrow> (None, fs'')
              | Inl err \<Rightarrow>
                 (case map_of fs' p of
                    Some (Dir m t s) \<Rightarrow> (None, fs')
                  | Some (File c t m) \<Rightarrow> (Some err, fs')
                  | None \<Rightarrow> (Some err, fs')))))"
  by pat_completeness auto
termination
  by (relation "measure (\<lambda>(e, fs, p, perm). length p)") auto

declare mkdirAll.simps [simp del]

text \<open>
  \<open>os.Create\<close> is \<open>OpenFile(name, O_RDWR|O_CREATE|O_TRUNC, 0666)\<close>: an existing file is
  truncated and keeps its mode, a missing one is made in an existing directory.
\<close>

definition create :: "env \<Rightarrow> fsys \<Rightarrow> path \<Rightarrow> error + fsys" where
  "create e fs p =
     (case faults e ''open'' p of
        Some en \<Rightarrow> Inl (PathError ''open'' p en)
      | None \<Rightarrow>
         (case map_of fs p of
            Some (Dir m t s) \<Rightarrow> Inl (PathError ''open'' p EISDIR)
          | Some (File c t m) \<Rightarrow> Inr (AList.update p (File [] (now e) m) fs)
          | None \<Rightarrow>
             (case map_of fs (butlast p) of
                None \<Rightarrow> Inl (PathError ''open'' p ENOENT)
              | Some (File c t m) \<Rightarrow> Inl (PathError ''open'' p ENOTDIR)
              | Some (Dir m t s) \<Rightarrow> Inr (AList.update p (File [] (now e) perm666) fs))))"

text \<open>Writing the bytes read from the source into the open destination file.\<close>

definition writeAll :: "env \<Rightarrow> fsys \<Rightarrow> path \<Rightarrow> string \<Rightarrow> error + fsys" where
  "writeAll e fs p bytes =
     (case faults e ''write'' p of
        Some en \<Rightarrow> Inl (PathError ''write'' p en)
      | None \<Rightarrow>
         (case map_of fs p of
            Some (File c t m) \<Rightarrow> Inr (AList.update p (File bytes (now e) m) fs)
          | Some (Dir m t s) \<Rightarrow> Inl (PathError ''write'' p EISDIR)
          | None \<Rightarrow> Inl (PathError ''write'' p ENOENT)))"

definition chtimes :: "env \<Rightarrow> fsys \<Rightarrow> path \<Rightarrow> int \<Rightarrow> error + fsys" where
  "chtimes e fs p mtime =
     (case faults e ''chtimes'' p of
        Some en \<Rightarrow> Inl (PathError ''chtimes'' p en)
      | None \<Rightarrow>
         (case map_of fs p of
            Some (File c t m) \<Rightarrow> Inr (AList.update p (File c mtime m) fs)
          | Some (Dir m t s) \<Rightarrow> Inr (AList.update p (Dir m mtime s) fs)
          | None \<Rightarrow> Inl (PathError ''chtimes'' p ENOENT)))"

definition chmod :: "env \<Rightarrow> fsys \<Rightarrow> path \<Rightarrow> nat \<Rightarrow> error + fsys" where
  "chmod e fs p mode =
     (case faults e ''chmod'' p of
        Some en \<Rightarrow> Inl (PathError ''chmod'' p en)
      | None \<Rightarrow>
         (case map_of fs p of
            Some (File c t m) \<Rightarrow> Inr (AList.update p (File c t mode) fs)
          | Some (Dir m t s) \<Rightarrow> Inr (AList.update p (Dir mode t s) fs)
          | None \<Rightarrow> Inl (PathError ''chmod'' p ENOENT)))"

text \<open>
  \<open>os.RemoveAll\<close> removes the path and everything below it, and succeeds on a path that
  does not exist. A failure of the removal is injected at the path handed to the call.
\<close>

definition RemoveAll :: "env \<Rightarrow> fsys \<Rightarrow> path \<Rightarrow> error option \<times> fsys" where
  "RemoveAll e fs p =
     (case faults e ''unlinkat'' p of
        Some en \<Rightarrow> (Some (PathError ''unlinkat'' p en), fs)
      | None \<Rightarrow> (None, filter (\<lambda>(q, x). \<not> prefix p q) fs))"

subsection \<open>\<open>filepath.Walk\<close> and \<open>filepath.WalkDir\<close>\<close>

text \<open>
  Both walks go through a tree in lexical order, a directory before its entries and the
  entries of a directory sorted by name: that is the order of the paths as lists of
  components. A walk reaches the entries below its root whose ancestors up to the root
  are directories; neither walk follows a symbolic link.
\<close>

definition reachable :: "(path \<Rightarrow> bool) \<Rightarrow> path \<Rightarrow> path \<Rightarrow> bool" where
  "reachable isdir root q =
     (prefix root q \<and> list_all isdir (filter (\<lambda>r. prefix root r \<and> r \<noteq> q) (prefixes q)))"

definition walkPaths :: "(path \<Rightarrow> bool) \<Rightarrow> path list \<Rightarrow> path \<Rightarrow> path list" where
  "walkPaths isdir keys root = sort (remdups (filter (reachable isdir root) keys))"

definition dirAt :: "fsys \<Rightarrow> path \<Rightarrow> bool" where
  "dirAt fs p = (case map_of fs p of Some x \<Rightarrow> isDir x | None \<Rightarrow> False)"

definition srcDirAt :: "srcfs \<Rightarrow> path \<Rightarrow> bool" where
  "srcDirAt src p = (case map_of src p of Some d \<Rightarrow> srcIsDir d | None \<Rightarrow> False)"

text \<open>
  \<open>filepath.Walk\<close> calls \<open>fn\<close> once for each entry, with the \<open>Lstat\<close> of the entry
  or the error of that \<open>Lstat\<close>; for a directory it reads the names first and hands a
  failure of that to the same call. The walk ends with the first error \<open>fn\<close> returns;
  when \<open>fn\<close> returns nil for an entry that came with an error, the entries below it are
  left out.
\<close>

function Walk_from ::
  "env \<Rightarrow> fsys \<Rightarrow> ('s \<Rightarrow> path \<Rightarrow> error + fileInfo \<Rightarrow> error option \<times> 's) \<Rightarrow> path list \<Rightarrow> 's
     \<Rightarrow> error option \<times> 's" where
  "Walk_from e fs fn [] st = (None, st)"
| "Walk_from e fs fn (q # qs) st =
     (case map_of fs q of
        None \<Rightarrow> Walk_from e fs fn qs st
      | Some x \<Rightarrow>
         (case (case faults e ''lstat'' q of
                  Some en \<Rightarrow> Some (PathError ''lstat'' q en)
                | None \<Rightarrow>
                   (if isDir x then
                      (case faults e ''open'' q of
                         Some en \<Rightarrow> Some (PathError ''open'' q en)
                       | None \<Rightarrow> None)
                    else None)) of
            Some err \<Rightarrow>
             (case fn st q (Inl err) of
                (Some err', st') \<Rightarrow> (Some err', st')
              | (None, st') \<Rightarrow> Walk_from e fs fn (filter (\<lambda>r. \<not> prefix q r) qs) st')
          | None \<Rightarrow>
             (case fn st q (Inr (info x)) of
                (Some err', st') \<Rightarrow> (Some err', st')
              | (None, st') \<Rightarrow> Walk_from e fs fn qs st')))"
  by pat_completeness auto
termination
  by (relation "measure (\<lambda>(e, fs, fn, qs, st). length qs)") (auto simp: less_Suc_eq_le)

definition Walk ::
  "env \<Rightarrow> fsys \<Rightarrow> path \<Rightarrow> ('s \<Rightarrow> path \<Rightarrow> error + fileInfo \<Rightarrow> error option \<times> 's) \<Rightarrow> 's
     \<Rightarrow> error option \<times> 's" where
  "Walk e fs root fn st =
     (case faults e ''lstat'' root of
        Some en \<Rightarrow> fn st root (Inl (PathError ''lstat'' root en))
      | None \<Rightarrow>
         (case map_of fs root of
            None \<Rightarrow> fn st root (Inl (PathError ''lstat'' root ENOENT))
          | Some x \<Rightarrow> Walk_from e fs fn (walkPaths (dirAt fs) (map fst fs) root) st))"

text \<open>
  \<open>filepath.WalkDir\<close> calls \<open>fn\<close> with the directory entry; for a directory it then
  reads the entries, and calls \<open>fn\<close> a second time on the directory with the error when
  that fails.
\<close>

function WalkDir_from ::
  "env \<Rightarrow> srcfs \<Rightarrow> ('s \<Rightarrow> path \<Rightarrow> error + srcEnt \<Rightarrow> error option \<times> 's) \<Rightarrow> path list \<Rightarrow> 's
     \<Rightarrow> error option \<times> 's" where
  "WalkDir_from e src fn [] st = (None, st)"
| "WalkDir_from e src fn (q # qs) st =
     (case map_of src q of
        None \<Rightarrow> WalkDir_from e src fn qs st
      | Some d \<Rightarrow>
         (case fn st q (Inr d) of
            (Some err, st') \<Rightarrow> (Some err, st')
          | (None, st') \<Rightarrow>
             (case (if srcIsDir d then faults e ''open'' q else None) of
                None \<Rightarrow> WalkDir_from e src fn qs st'
              | Some en \<Rightarrow>
                 (case fn st' q (Inl (PathError ''open'' q en)) of
                    (Some err, st'') \<Rightarrow> (Some err, st'')
                  | (None, st'') \<Rightarrow>
                     WalkDir_from e src fn (filter (\<lambda>r. \<not> prefix q r) qs) st''))))"
  by pat_completeness auto
termination
  by (relation "measure (\<lambda>(e, src, fn, qs, st). length qs)") (auto simp: less_Suc_eq_le)

definition WalkDir ::
  "env \<Rightarrow> srcfs \<Rightarrow> path \<Rightarrow> ('s \<Rightarrow> path \<Rightarrow> error + srcEnt \<Rightarrow> error option \<times> 's) \<Rightarrow> 's
     \<Rightarrow> error option \<times> 's" where
  "WalkDir e src root fn st =
     (case faults e ''lstat'' root of
        Some en \<Rightarrow> fn st root (Inl (PathError ''lstat'' root en))
      | None \<Rightarrow>
         (case map_of src root of
            None \<Rightarrow> fn st root (Inl (PathError ''lstat'' root ENOENT))
          | Some d \<Rightarrow> WalkDir_from e src fn (walkPaths (srcDirAt src) (map fst src) root) st))"

section \<open>\<open>sync.go\<close>\<close>

definition needsUpdate :: "fileInfo \<Rightarrow> fileInfo \<Rightarrow> bool" where
  "needsUpdate src dst = (Size src \<noteq> Size dst \<or> \<not> (ModTime src = ModTime dst))"

text \<open>
  The source side of \<open>copyFile\<close>: \<open>os.Open\<close>, the reads of \<open>io.Copy\<close> and \<open>os.Stat\<close>.
  \<open>Dirs\<close> hands \<open>copyFile\<close> no symbolic link; following one is not modelled and
  reported as \<open>ELOOP\<close>.
\<close>

definition openSrc :: "env \<Rightarrow> srcfs \<Rightarrow> path \<Rightarrow> error option" where
  "openSrc e src p =
     (case faults e ''open'' p of
        Some en \<Rightarrow> Some (PathError ''open'' p en)
      | None \<Rightarrow>
         (case map_of src p of
            None \<Rightarrow> Some (PathError ''open'' p ENOENT)
          | Some (SLink g t) \<Rightarrow> Some (PathError ''open'' p ELOOP)
          | Some (SFile c t m) \<Rightarrow> None
          | Some (SDir m t s) \<Rightarrow> None))"

definition readAll :: "env \<Rightarrow> srcfs \<Rightarrow> path \<Rightarrow> error + string" where
  "readAll e src p =
     (case faults e ''read'' p of
        Some en \<Rightarrow> Inl (PathError ''read'' p en)
      | None \<Rightarrow>
         (case map_of src p of
            None \<Rightarrow> Inl (PathError ''read'' p ENOENT)
          | Some (SLink g t) \<Rightarrow> Inl (PathError ''read'' p ELOOP)
          | Some (SFile c t m) \<Rightarrow> Inr c
          | Some (SDir m t s) \<Rightarrow> Inl (PathError ''read'' p EISDIR)))"

definition statSrc :: "env \<Rightarrow> srcfs \<Rightarrow> path \<Rightarrow> error + fileInfo" where
  "statSrc e src p =
     (case faults e ''stat'' p of
        Some en \<Rightarrow> Inl (PathError ''stat'' p en)
      | None \<Rightarrow>
         (case map_of src p of
            None \<Rightarrow> Inl (PathError ''stat'' p ENOENT)
          | Some (SLink g t) \<Rightarrow> Inl (PathError ''stat'' p ELOOP)
          | Some (SFile c t m) \<Rightarrow> Inr (srcEntInfo (SFile c t m))
          | Some (SDir m t s) \<Rightarrow> Inr (srcEntInfo (SDir m t s))))"

text \<open>
  \<open>copyFile\<close>, statement by statement; every \<open>return err\<close> is a branch that gives the
  error and the destination as it is at that point.
\<close>

definition copyFile :: "env \<Rightarrow> srcfs \<Rightarrow> path \<Rightarrow> fsys \<Rightarrow> path \<Rightarrow> error option \<times> fsys" where
  "copyFile e src srcP fs dstP =
     (case openSrc e src srcP of
        Some err \<Rightarrow> (Some err, fs)
      | None \<Rightarrow>
         (case mkdirAll e fs (butlast dstP) perm755 of
            (Some err, fs1) \<Rightarrow> (Some err, fs1)
          | (None, fs1) \<Rightarrow>
             (case create e fs1 dstP of
                Inl err \<Rightarrow> (Some err, fs1)
              | Inr fs2 \<Rightarrow>
                 (case readAll e src srcP of
                    Inl err \<Rightarrow> (Some err, fs2)
                  | Inr bytes \<Rightarrow>
                     (case writeAll e fs2 dstP bytes of
                        Inl err \<Rightarrow> (Some err, fs2)
                      | Inr fs3 \<Rightarrow>
                         (case statSrc e src srcP of
                            Inl err \<Rightarrow> (Some err, fs3)
                          | Inr srcInfo \<Rightarrow>
                             (case chtimes e fs3 dstP (ModTime srcInfo) of
                                Inl err \<Rightarrow> (Some err, fs3)
                              | Inr fs4 \<Rightarrow>
                                 (case chmod e fs4 dstP (Mode srcInfo) of
                                    Inl err \<Rightarrow> (Some err, fs4)
                                  | Inr fs5 \<Rightarrow> (None, fs5)))))))))"

text \<open>
  \<open>filepath.Rel(root, path)\<close> for a path that a walk made from \<open>root\<close>: the components
  after the root. On such a path \<open>Rel\<close> does not fail, so the two \<open>return err\<close> after it
  have no branch here.
\<close>

definition Rel :: "path \<Rightarrow> path \<Rightarrow> path" where
  "Rel root p = drop (length root) p"

text \<open>
  \<open>dstFiles\<close> is the map of \<open>Dirs\<close>, kept as an association list in the order in which
  the destination walk fills it.
\<close>

type_synonym inventory = "(path \<times> fileInfo) list"

text \<open>The function literal handed to \<open>filepath.Walk\<close> (lines 31 to 44).\<close>

definition inventoryFn ::
  "path \<Rightarrow> inventory \<Rightarrow> path \<Rightarrow> error + fileInfo \<Rightarrow> error option \<times> inventory" where
  "inventoryFn dstDir dstFiles p r =
     (case r of
        Inl err \<Rightarrow> (Some err, dstFiles)
      | Inr i \<Rightarrow>
         (if p = dstDir then (None, dstFiles)
          else (None, AList.update (Rel dstDir p) i dstFiles)))"

text \<open>\<open>d.Info()\<close> of a directory entry is the \<open>Lstat\<close> of its path.\<close>

definition Info :: "env \<Rightarrow> path \<Rightarrow> srcEnt \<Rightarrow> error + fileInfo" where
  "Info e p d =
     (case faults e ''lstat'' p of
        Some en \<Rightarrow> Inl (PathError ''lstat'' p en)
      | None \<Rightarrow> Inr (srcEntInfo d))"

text \<open>
  The function literal handed to \<open>filepath.WalkDir\<close> (lines 50 to 84); its state is
  \<open>dstFiles\<close> and the destination.
\<close>

definition syncFn ::
  "env \<Rightarrow> srcfs \<Rightarrow> path \<Rightarrow> path \<Rightarrow> inventory \<times> fsys \<Rightarrow> path \<Rightarrow> error + srcEnt
     \<Rightarrow> error option \<times> inventory \<times> fsys" where
  "syncFn e src srcDir dstDir st p r =
     (case r of
        Inl err \<Rightarrow> (Some (Wrap ''error walking source folder'' err), st)
      | Inr d \<Rightarrow>
         (if srcIsLink d then (None, st)
          else
            (let relPath = Rel srcDir p;
                 dstPath = dstDir @ relPath;
                 dstFiles = fst st;
                 fs = snd st
             in if srcIsDir d then
                  (case mkdirAll e fs dstPath perm755 of (r, fs') \<Rightarrow> (r, dstFiles, fs'))
                else
                  (case Info e p d of
                     Inl err \<Rightarrow> (Some err, st)
                   | Inr srcInfo \<Rightarrow>
                      (let dstFiles' = AList.delete relPath dstFiles
                       in case map_of dstFiles relPath of
                            Some dstInfo \<Rightarrow>
                             (if needsUpdate srcInfo dstInfo then
                                (case copyFile e src p fs dstPath of
                                   (r, fs') \<Rightarrow> (r, dstFiles', fs'))
                              else (None, dstFiles', fs))
                          | None \<Rightarrow>
                             (case copyFile e src p fs dstPath of
                                (r, fs') \<Rightarrow> (r, dstFiles', fs')))))))"

text \<open>
  The deletion pass (lines 91 to 102). Go leaves the order of \<open>range\<close> over a map open;
  the loop here takes the entries in the order of the list.
\<close>

fun deleteLoop :: "env \<Rightarrow> path \<Rightarrow> inventory \<Rightarrow> fsys \<Rightarrow> error option \<times> fsys" where
  "deleteLoop e dstDir [] fs = (None, fs)"
| "deleteLoop e dstDir ((relPath, i) # rest) fs =
     (let dstPath = dstDir @ relPath
      in case RemoveAll e fs dstPath of
           (Some err, fs') \<Rightarrow> (Some (WrapPath ''failed to delete'' dstPath err), fs')
         | (None, fs') \<Rightarrow>
            (if IsDir i then
               (case RemoveAll e fs' dstPath of
                  (Some err, fs'') \<Rightarrow>
                   (Some (WrapPath ''failed to delete directory'' dstPath err), fs'')
                | (None, fs'') \<Rightarrow> deleteLoop e dstDir rest fs'')
             else deleteLoop e dstDir rest fs'))"

definition Dirs :: "env \<Rightarrow> srcfs \<Rightarrow> path \<Rightarrow> fsys \<Rightarrow> path \<Rightarrow> bool \<Rightarrow> error option \<times> fsys" where
  "Dirs e src srcDir fs dstDir deleteMissing =
     (case mkdirAll e fs dstDir perm755 of
        (Some err, fs0) \<Rightarrow> (Some (Wrap ''creating destination directory'' err), fs0)
      | (None, fs0) \<Rightarrow>
         (case Walk e fs0 dstDir (inventoryFn dstDir) [] of
            (Some err, dstFiles) \<Rightarrow> (Some (Wrap ''error walking destination folder'' err), fs0)
          | (None, dstFiles) \<Rightarrow>
             (case WalkDir e src srcDir (syncFn e src srcDir dstDir) (dstFiles, fs0) of
                (Some err, dstFiles', fs1) \<Rightarrow> (Some err, fs1)
              | (None, dstFiles', fs1) \<Rightarrow>
                 (if deleteMissing then deleteLoop e dstDir dstFiles' fs1
                  else (None, fs1)))))"

section \<open>Concrete trees\<close>

text \<open>
  A quiet environment (no system call fails for a reason of its own), and the trees of
  the repository's tests: a source with \<open>nested/file.txt\<close>, a destination that holds the
  same file already, and an empty file system.
\<close>

definition quiet :: env where
  "quiet = \<lparr>faults = (\<lambda>op p. None), now = 1000, dirSize = 4096\<rparr>"

definition nestedSrc :: srcfs where
  "nestedSrc =
     [([''src''], SDir 493 5 4096),
      ([''src'', ''nested''], SDir 493 5 4096),
      ([''src'', ''nested'', ''file.txt''], SFile ''hi'' 7 420)]"

definition nestedDst :: fsys where
  "nestedDst =
     [([], Dir 493 0 4096),
      ([''dst''], Dir 493 1 4096),
      ([''dst'', ''nested''], Dir 493 1 4096),
      ([''dst'', ''nested'', ''file.txt''], File ''hi'' 7 420)]"

definition rootOnly :: fsys where
  "rootOnly = [([], Dir 493 0 4096)]"



definition collideDst :: fsys where
  "collideDst =
     [([], Dir 493 0 4096),
      ([''dst''], Dir 493 1 4096),
      ([''dst'', ''nested''], File ''f'' 1 420)]"

section \<open>The copy primitive\<close>









section \<open>The staleness rule\<close>



section \<open>A source root that does not exist\<close>



section \<open>Directories of the destination and the deletion pass\<close>

text \<open>
  Claim C1 (mirror completeness). The source holds \<open>nested/file.txt\<close> and the destination
  holds the same file already, with the same size and modification time. The source walk
  takes \<open>nested/file.txt\<close> out of the inventory but leaves the directory \<open>nested\<close> in
  it, so with \<open>deleteMissing\<close> the deletion pass removes \<open>dst/nested\<close> and the file in
  it: \<open>Dirs\<close> returns nil and the destination has no \<open>nested/file.txt\<close>.
\<close>

theorem matched_directory_is_deleted:
  "map_of nestedSrc [''src'', ''nested'', ''file.txt''] = Some (SFile ''hi'' 7 420) \<and>
   map_of nestedDst [''dst'', ''nested'', ''file.txt''] = Some (File ''hi'' 7 420) \<and>
   Dirs quiet nestedSrc [''src''] nestedDst [''dst''] True =
     (None, [([], Dir 493 0 4096), ([''dst''], Dir 493 1 4096)])"
  by code_simp

theorem matched_directory_is_deleted_witness:
  "map_of (snd (Dirs quiet nestedSrc [''src''] nestedDst [''dst''] True))
     [''dst'', ''nested'', ''file.txt''] = None"
  using matched_directory_is_deleted by simp

text \<open>
  Claim C4 (idempotence). With \<open>deleteMissing\<close>, a first run into an empty destination
  creates \<open>nested/file.txt\<close>; a second run with the same source finds the directory
  \<open>nested\<close> in its inventory, never takes it out, and deletes it: the state after the
  second run is not the state after the first.
\<close>

theorem second_run_deletes_copy:
  "Dirs quiet nestedSrc [''src''] rootOnly [''dst''] True =
     (None, [([], Dir 493 0 4096), ([''dst''], Dir 493 1000 4096),
             ([''dst'', ''nested''], Dir 493 1000 4096),
             ([''dst'', ''nested'', ''file.txt''], File ''hi'' 7 420)]) \<and>
   Dirs quiet nestedSrc [''src'']
     [([], Dir 493 0 4096), ([''dst''], Dir 493 1000 4096),
      ([''dst'', ''nested''], Dir 493 1000 4096),
      ([''dst'', ''nested'', ''file.txt''], File ''hi'' 7 420)] [''dst''] True =
     (None, [([], Dir 493 0 4096), ([''dst''], Dir 493 1000 4096)])"
  by code_simp

theorem second_run_deletes_copy_witness:
  "snd (Dirs quiet nestedSrc [''src''] (snd (Dirs quiet nestedSrc [''src''] rootOnly [''dst''] True))
          [''dst''] True)
   \<noteq> snd (Dirs quiet nestedSrc [''src''] rootOnly [''dst''] True)"
  using second_run_deletes_copy by simp

section \<open>What the walks and the file operations leave alone\<close>

lemma reachableD:
  assumes "reachable isdir root q"
  shows "prefix root q" and "\<And>r. prefix root r \<Longrightarrow> strict_prefix r q \<Longrightarrow> isdir r"
  using assms by (auto simp: reachable_def list_all_iff strict_prefix_def)

lemma walkPaths_set:
  "q \<in> set (walkPaths isdir keys root) \<longleftrightarrow> q \<in> set keys \<and> reachable isdir root q"
  by (auto simp: walkPaths_def)

lemma Rel_append [simp]: "Rel root (root @ r) = r"
  by (simp add: Rel_def)

lemma prefix_Rel: "prefix root q \<Longrightarrow> root @ Rel root q = q"
  by (auto simp: Rel_def prefix_def)

lemma WalkDir_from_invariant:
  assumes "WalkDir_from e src fn qs st = (r, st')"
    and "I st"
    and "set qs \<subseteq> Q"
    and step: "\<And>st q d r st'. I st \<Longrightarrow> q \<in> Q \<Longrightarrow> map_of src q = Some d \<Longrightarrow>
           fn st q (Inr d) = (r, st') \<Longrightarrow> I st'"
    and estep: "\<And>st q err r st'. I st \<Longrightarrow> fn st q (Inl err) = (r, st') \<Longrightarrow> I st'"
  shows "I st'"
  using assms
proof (induction e src fn qs st rule: WalkDir_from.induct)
  case (1 e src fn st)
  from "1.prems"(1) have "st' = st" by simp
  with "1.prems"(2) show ?case by simp
next
  case (2 e src fn q qs st)
  note run = "2.prems"(1) and I0 = "2.prems"(2) and step = "2.prems"(4) and estep = "2.prems"(5)
  have qQ: "q \<in> Q" and sub: "set qs \<subseteq> Q" using "2.prems"(3) by simp_all
  show ?case
  proof (cases "map_of src q")
    case None
    with run have w: "WalkDir_from e src fn qs st = (r, st')" by simp
    show ?thesis
      by (rule "2.IH"(1)[OF None w I0 sub]) (erule (3) step, erule (1) estep)
  next
    case (Some d)
    note d = Some
    obtain r1 st1 where f1: "fn st q (Inr d) = (r1, st1)" by (cases "fn st q (Inr d)")
    have I1: "I st1" using step[OF I0 qQ d f1] .
    show ?thesis
    proof (cases r1)
      case (Some err)
      with run d f1 have "st' = st1" by simp
      with I1 show ?thesis by simp
    next
      case None
      note r1 = None
      show ?thesis
      proof (cases "if srcIsDir d then faults e ''open'' q else None")
        case None
        with run d f1 r1 have w: "WalkDir_from e src fn qs st1 = (r, st')" by simp
        show ?thesis
          by (rule "2.IH"(2)[OF d f1[symmetric] r1 None w I1 sub])
             (erule (3) step, erule (1) estep)
      next
        case (Some en)
        note flt = Some
        obtain r2 st2 where f2: "fn st1 q (Inl (PathError ''open'' q en)) = (r2, st2)"
          by (cases "fn st1 q (Inl (PathError ''open'' q en))")
        have I2: "I st2" using estep[OF I1 f2] .
        show ?thesis
        proof (cases r2)
          case (Some err)
          with run d f1 f2 r1 flt have "st' = st2" by simp
          with I2 show ?thesis by simp
        next
          case None
          with run d f1 r1 flt f2
          have w: "WalkDir_from e src fn (filter (\<lambda>r. \<not> prefix q r) qs) st2 = (r, st')" by simp
          have s: "set (filter (\<lambda>r. \<not> prefix q r) qs) \<subseteq> Q" using sub by auto
          show ?thesis
            by (rule "2.IH"(3)[OF d f1[symmetric] r1 flt f2[symmetric] None w I2 s])
               (erule (3) step, erule (1) estep)
        qed
      qed
    qed
  qed
qed

lemma mkdir_Inr:
  "mkdir e fs p perm = Inr fs' \<Longrightarrow>
     fs' = fs @ [(p, Dir perm (now e) (dirSize e))] \<and> map_of fs p = None"
  by (auto simp: mkdir_def split: option.splits ent.splits)

lemma map_of_snoc_Some: "map_of fs x = Some v \<Longrightarrow> map_of (fs @ [(p, d)]) x = Some v"
  by (simp add: map_add_def)


lemma mkdirAll_preserves:
  "map_of fs x = Some v \<Longrightarrow> map_of (snd (mkdirAll e fs p perm)) x = Some v"
proof (induction e fs p perm rule: mkdirAll.induct)
  case (1 e fs p perm)
  show ?case
  proof (cases "map_of fs p")
    case (Some a)
    with 1 show ?thesis by (cases a) (simp_all add: mkdirAll.simps[of e fs p])
  next
    case None
    define par where "par = (if p = [] then (None, fs) else mkdirAll e fs (butlast p) perm)"
    have par: "map_of (snd par) x = Some v"
      using 1 None by (auto simp: par_def)
    show ?thesis
      using par None
      by (subst mkdirAll.simps)
         (auto simp: par_def[symmetric] map_of_snoc_Some split: prod.splits option.splits
               sum.splits ent.splits dest!: mkdir_Inr)
  qed
qed


lemma create_other: "create e fs p = Inr fs' \<Longrightarrow> x \<noteq> p \<Longrightarrow> map_of fs' x = map_of fs x"
  by (auto simp: create_def update_conv' split: option.splits ent.splits)

lemma writeAll_other: "writeAll e fs p b = Inr fs' \<Longrightarrow> x \<noteq> p \<Longrightarrow> map_of fs' x = map_of fs x"
  by (auto simp: writeAll_def update_conv' split: option.splits ent.splits)

lemma chtimes_other: "chtimes e fs p t = Inr fs' \<Longrightarrow> x \<noteq> p \<Longrightarrow> map_of fs' x = map_of fs x"
  by (auto simp: chtimes_def update_conv' split: option.splits ent.splits)

lemma chmod_other: "chmod e fs p m = Inr fs' \<Longrightarrow> x \<noteq> p \<Longrightarrow> map_of fs' x = map_of fs x"
  by (auto simp: chmod_def update_conv' split: option.splits ent.splits)

lemma copyFile_other:
  assumes "x \<noteq> dstP"
  shows "map_of (snd (copyFile e src srcP fs dstP)) x = map_of fs x \<or>
         map_of (snd (copyFile e src srcP fs dstP)) x =
           map_of (snd (mkdirAll e fs (butlast dstP) perm755)) x"
proof (cases "openSrc e src srcP")
  case (Some err)
  then show ?thesis by (simp add: copyFile_def)
next
  case None
  obtain r1 fs1 where m: "mkdirAll e fs (butlast dstP) perm755 = (r1, fs1)"
    by (cases "mkdirAll e fs (butlast dstP) perm755")
  have "map_of (snd (copyFile e src srcP fs dstP)) x = map_of fs1 x"
  proof (cases r1)
    case (Some err)
    with None m show ?thesis by (simp add: copyFile_def)
  next
    case r1: None
    show ?thesis
    proof (cases "create e fs1 dstP")
      case (Inl err)
      with None m r1 show ?thesis by (simp add: copyFile_def)
    next
      case (Inr fs2)
      note c = Inr
      have e2: "map_of fs2 x = map_of fs1 x" using create_other[OF c assms] .
      show ?thesis
      proof (cases "readAll e src srcP")
        case (Inl err)
        with None m r1 c e2 show ?thesis by (simp add: copyFile_def)
      next
        case (Inr bytes)
        note rd = Inr
        show ?thesis
        proof (cases "writeAll e fs2 dstP bytes")
          case (Inl err)
          with None m r1 c e2 rd show ?thesis by (simp add: copyFile_def)
        next
          case (Inr fs3)
          note w = Inr
          have e3: "map_of fs3 x = map_of fs1 x" using writeAll_other[OF w assms] e2 by simp
          show ?thesis
          proof (cases "statSrc e src srcP")
            case (Inl err)
            with None m r1 c rd w e3 show ?thesis by (simp add: copyFile_def)
          next
            case (Inr i)
            note s = Inr
            show ?thesis
            proof (cases "chtimes e fs3 dstP (ModTime i)")
              case (Inl err)
              with None m r1 c rd w s e3 show ?thesis by (simp add: copyFile_def)
            next
              case (Inr fs4)
              note t = Inr
              have e4: "map_of fs4 x = map_of fs1 x" using chtimes_other[OF t assms] e3 by simp
              show ?thesis
              proof (cases "chmod e fs4 dstP (Mode i)")
                case (Inl err)
                with None m r1 c rd w s t e4 show ?thesis by (simp add: copyFile_def)
              next
                case (Inr fs5)
                have "map_of fs5 x = map_of fs1 x" using chmod_other[OF Inr assms] e4 by simp
                with None m r1 c rd w s t Inr show ?thesis by (simp add: copyFile_def)
              qed
            qed
          qed
        qed
      qed
    qed
  qed
  with m show ?thesis by simp
qed

lemma copyFile_preserves:
  assumes "map_of fs x = Some v" and "x \<noteq> dstP"
  shows "map_of (snd (copyFile e src srcP fs dstP)) x = Some v"
  using copyFile_other[OF assms(2), of e src srcP fs] mkdirAll_preserves[OF assms(1)] assms(1)
  by auto


lemma WalkDir_invariant:
  assumes "WalkDir e src root fn st = (r, st')"
    and "I st"
    and "\<And>st q d r st'. I st \<Longrightarrow> q \<in> set (map fst src) \<Longrightarrow> reachable (srcDirAt src) root q \<Longrightarrow>
           map_of src q = Some d \<Longrightarrow> fn st q (Inr d) = (r, st') \<Longrightarrow> I st'"
    and "\<And>st q err r st'. I st \<Longrightarrow> fn st q (Inl err) = (r, st') \<Longrightarrow> I st'"
  shows "I st'"
proof -
  let ?Q = "{q. q \<in> set (map fst src) \<and> reachable (srcDirAt src) root q}"
  have sub: "set (walkPaths (srcDirAt src) (map fst src) root) \<subseteq> ?Q"
    by (auto simp: walkPaths_set)
  have step: "\<And>st q d r st'. I st \<Longrightarrow> q \<in> ?Q \<Longrightarrow> map_of src q = Some d \<Longrightarrow>
           fn st q (Inr d) = (r, st') \<Longrightarrow> I st'"
    using assms(3) by blast
  show ?thesis
  proof (cases "faults e ''lstat'' root")
    case (Some en)
    with assms(1) have "fn st root (Inl (PathError ''lstat'' root en)) = (r, st')"
      by (simp add: WalkDir_def)
    with assms(2,4) show ?thesis by blast
  next
    case None
    show ?thesis
    proof (cases "map_of src root")
      case n: None
      with None assms(1) have "fn st root (Inl (PathError ''lstat'' root ENOENT)) = (r, st')"
        by (simp add: WalkDir_def)
      with assms(2,4) show ?thesis by blast
    next
      case (Some d)
      with None assms(1)
      have w: "WalkDir_from e src fn (walkPaths (srcDirAt src) (map fst src) root) st = (r, st')"
        by (simp add: WalkDir_def)
      show ?thesis
        by (rule WalkDir_from_invariant[where I=I and Q="?Q", OF w assms(2) sub])
           (erule (3) step, erule (1) assms(4))
    qed
  qed
qed

lemma syncFn_Inl: "syncFn e src srcDir dstDir st q (Inl err) = (r, st') \<Longrightarrow> st' = st"
  by (auto simp: syncFn_def)

lemma syncFn_preserves:
  assumes "map_of fs x = Some v"
    and "syncFn e src srcDir dstDir (files, fs) q (Inr d) = (res, files', fs')"
    and "\<not> srcIsDir d \<Longrightarrow> \<not> srcIsLink d \<Longrightarrow> x \<noteq> dstDir @ Rel srcDir q"
  shows "map_of fs' x = Some v"
proof (cases "srcIsLink d")
  case True
  with assms(1,2) show ?thesis by (simp add: syncFn_def)
next
  case nl: False
  show ?thesis
  proof (cases "srcIsDir d")
    case True
    with nl assms(2) have "fs' = snd (mkdirAll e fs (dstDir @ Rel srcDir q) perm755)"
      by (auto simp: syncFn_def Let_def split: prod.splits)
    with mkdirAll_preserves[OF assms(1)] show ?thesis by simp
  next
    case False
    with nl assms(3) have ne: "x \<noteq> dstDir @ Rel srcDir q" by simp
    from False nl assms(2)
    have "fs' = fs \<or> fs' = snd (copyFile e src q fs (dstDir @ Rel srcDir q))"
      by (auto simp: syncFn_def Let_def split: prod.splits sum.splits option.splits if_splits)
    with copyFile_preserves[OF assms(1) ne] assms(1) show ?thesis by auto
  qed
qed


text \<open>The result of \<open>Dirs\<close>, by the phase in which it returns.\<close>

lemma Dirs_cases:
  obtains (mk) err fs0 where "mkdirAll e fs dstDir perm755 = (Some err, fs0)"
      "Dirs e src srcDir fs dstDir del = (Some (Wrap ''creating destination directory'' err), fs0)"
  | (listing) fs0 err dstFiles where "mkdirAll e fs dstDir perm755 = (None, fs0)"
      "Walk e fs0 dstDir (inventoryFn dstDir) [] = (Some err, dstFiles)"
      "Dirs e src srcDir fs dstDir del = (Some (Wrap ''error walking destination folder'' err), fs0)"
  | (walk) fs0 dstFiles err dstFiles' fs1 where "mkdirAll e fs dstDir perm755 = (None, fs0)"
      "Walk e fs0 dstDir (inventoryFn dstDir) [] = (None, dstFiles)"
      "WalkDir e src srcDir (syncFn e src srcDir dstDir) (dstFiles, fs0) = (Some err, dstFiles', fs1)"
      "Dirs e src srcDir fs dstDir del = (Some err, fs1)"
  | (complete) fs0 dstFiles dstFiles' fs1 where "mkdirAll e fs dstDir perm755 = (None, fs0)"
      "Walk e fs0 dstDir (inventoryFn dstDir) [] = (None, dstFiles)"
      "WalkDir e src srcDir (syncFn e src srcDir dstDir) (dstFiles, fs0) = (None, dstFiles', fs1)"
      "Dirs e src srcDir fs dstDir del = (if del then deleteLoop e dstDir dstFiles' fs1 else (None, fs1))"
proof -
  obtain r0 fs0 where m: "mkdirAll e fs dstDir perm755 = (r0, fs0)"
    by (cases "mkdirAll e fs dstDir perm755")
  obtain r1 dstFiles where w: "Walk e fs0 dstDir (inventoryFn dstDir) [] = (r1, dstFiles)"
    by (cases "Walk e fs0 dstDir (inventoryFn dstDir) []")
  obtain r2 dstFiles' fs1 where
    s: "WalkDir e src srcDir (syncFn e src srcDir dstDir) (dstFiles, fs0) = (r2, dstFiles', fs1)"
    by (cases "WalkDir e src srcDir (syncFn e src srcDir dstDir) (dstFiles, fs0)")
  show thesis
  proof (cases r0)
    case (Some err)
    with m show ?thesis by (intro mk[of err fs0]) (simp_all add: Dirs_def)
  next
    case r0: None
    show ?thesis
    proof (cases r1)
      case (Some err)
      with m r0 w show ?thesis by (intro listing[of fs0 err dstFiles]) (simp_all add: Dirs_def)
    next
      case r1: None
      show ?thesis
      proof (cases r2)
        case (Some err)
        with m r0 w r1 s show ?thesis
          by (intro walk[of fs0 dstFiles err dstFiles' fs1]) (simp_all add: Dirs_def)
      next
        case None
        with m r0 w r1 s show ?thesis
          by (intro complete[of fs0 dstFiles dstFiles' fs1]) (simp_all add: Dirs_def)
      qed
    qed
  qed
qed





lemma WalkDir_from_fails:
  assumes "I st"
    and "q0 \<in> set qs"
    and "map_of src q0 = Some d0"
    and "set qs \<subseteq> Q"
    and "\<And>st. I st \<Longrightarrow> fst (fn st q0 (Inr d0)) \<noteq> None"
    and "\<And>st q d r st'. I st \<Longrightarrow> q \<in> Q \<Longrightarrow> map_of src q = Some d \<Longrightarrow>
           fn st q (Inr d) = (r, st') \<Longrightarrow> I st'"
    and "\<And>st q err. fst (fn st q (Inl err)) \<noteq> None"
  shows "fst (WalkDir_from e src fn qs st) \<noteq> None"
  using assms
proof (induction e src fn qs st rule: WalkDir_from.induct)
  case (1 e src fn st)
  from "1.prems"(2) show ?case by simp
next
  case (2 e src fn q qs st)
  note I0 = "2.prems"(1) and mem = "2.prems"(2) and d0 = "2.prems"(3)
    and at0 = "2.prems"(5) and step = "2.prems"(6) and estep = "2.prems"(7)
  have qQ: "q \<in> Q" and sub: "set qs \<subseteq> Q" using "2.prems"(4) by simp_all
  show ?case
  proof (cases "map_of src q")
    case None
    with mem d0 have in_qs: "q0 \<in> set qs" by auto
    have "fst (WalkDir_from e src fn qs st) \<noteq> None"
      by (rule "2.IH"(1)[OF None I0 in_qs d0 sub])
         (erule at0, erule (3) step, rule estep)
    with None show ?thesis by simp
  next
    case (Some d)
    note d = Some
    obtain r1 st1 where f1: "fn st q (Inr d) = (r1, st1)" by (cases "fn st q (Inr d)")
    have I1: "I st1" by (rule step[OF I0 qQ d f1])
    show ?thesis
    proof (cases r1)
      case (Some err)
      with f1 d show ?thesis by simp
    next
      case None
      note r1 = None
      have "q \<noteq> q0"
      proof
        assume "q = q0"
        with d d0 have "d = d0" by simp
        with \<open>q = q0\<close> f1 r1 at0[OF I0] show False by simp
      qed
      with mem have in_qs: "q0 \<in> set qs" by auto
      show ?thesis
      proof (cases "if srcIsDir d then faults e ''open'' q else None")
        case None
        have "fst (WalkDir_from e src fn qs st1) \<noteq> None"
          by (rule "2.IH"(2)[OF d f1[symmetric] r1 None I1 in_qs d0 sub])
             (erule at0, erule (3) step, rule estep)
        with d f1 r1 None show ?thesis by simp
      next
        case (Some en)
        obtain r2 st2 where f2: "fn st1 q (Inl (PathError ''open'' q en)) = (r2, st2)"
          by (cases "fn st1 q (Inl (PathError ''open'' q en))")
        with estep[of st1 q "PathError ''open'' q en"] obtain err where "r2 = Some err"
          by auto
        with f1 r1 Some f2 d show ?thesis by simp
      qed
    qed
  qed
qed

lemma mkdirAll_on_file:
  "map_of fs p = Some (File c t m) \<Longrightarrow>
     mkdirAll e fs p perm = (Some (PathError ''mkdir'' p ENOTDIR), fs)"
  by (simp add: mkdirAll.simps)

lemma syncFn_Inl_fails: "fst (syncFn e src srcDir dstDir st q (Inl err)) \<noteq> None"
  by (simp add: syncFn_def)

section \<open>Entries that exist only at the destination\<close>



section \<open>Symbolic links in the source\<close>




section \<open>A source directory that meets a destination file\<close>

text \<open>
  Claim C10 (type collision). When a path is a directory that the source walk reaches and
  the destination holds a regular file at the corresponding path, \<open>Dirs\<close> returns an
  error and the destination file is still there, unchanged.
\<close>

theorem type_collision_aborts:
  assumes "map_of src (srcDir @ r) = Some (SDir dm dt ds)"
    and "reachable (srcDirAt src) srcDir (srcDir @ r)"
    and "map_of fs (dstDir @ r) = Some (File c t m)"
  shows "fst (Dirs e src srcDir fs dstDir deleteMissing) \<noteq> None \<and>
         map_of (snd (Dirs e src srcDir fs dstDir deleteMissing)) (dstDir @ r) = Some (File c t m)"
proof -
  let ?x = "dstDir @ r"
  let ?v = "File c t m"
  let ?q0 = "srcDir @ r"
  let ?I = "\<lambda>st :: inventory \<times> fsys. map_of (snd st) ?x = Some ?v"
  let ?fn = "syncFn e src srcDir dstDir"
  have fs0: "map_of (snd (mkdirAll e fs dstDir perm755)) ?x = Some ?v"
    using mkdirAll_preserves[OF assms(3)] .
  have step: "?I st'" if I: "?I st" and d: "map_of src q = Some d"
      and f: "?fn st q (Inr d) = (r', st')" and pre: "prefix srcDir q" for st q d r' st'
  proof -
    have q: "srcDir @ Rel srcDir q = q" using pre by (rule prefix_Rel)
    have ne: "?x \<noteq> dstDir @ Rel srcDir q" if "\<not> srcIsDir d"
    proof
      assume "?x = dstDir @ Rel srcDir q"
      then have "r = Rel srcDir q" by simp
      with q d assms(1) that show False by auto
    qed
    from syncFn_preserves[of "snd st" ?x ?v e src srcDir dstDir "fst st" q d r' "fst st'" "snd st'"]
      I f ne
    show ?thesis by simp
  qed
  have at_q0: "fst (?fn st ?q0 (Inr (SDir dm dt ds))) \<noteq> None" if "?I st" for st
    using that by (simp add: syncFn_def Let_def mkdirAll_on_file)
  have root: "map_of src srcDir \<noteq> None"
  proof (cases "r = []")
    case True
    with assms(1) show ?thesis by simp
  next
    case False
    then have "strict_prefix srcDir (srcDir @ r)" by (simp add: strict_prefix_def)
    from reachableD(2)[OF assms(2) _ this] show ?thesis by (auto simp: srcDirAt_def split: option.splits)
  qed
  have key: "srcDir @ r \<in> set (map fst src)"
    using assms(1) by (metis map_of_SomeD image_eqI fst_conv set_map)
  have walk_inv: "map_of fs1 ?x = Some ?v"
    if "WalkDir e src srcDir ?fn (dstFiles, fs0) = (res, dstFiles', fs1)"
      and "map_of fs0 ?x = Some ?v" for dstFiles fs0 res dstFiles' fs1
  proof -
    have "?I (dstFiles', fs1)"
    proof (rule WalkDir_invariant[where I="?I", OF that(1)])
      show "?I (dstFiles, fs0)" using that(2) by simp
    next
      fix st q d r' st'
      assume "?I st" "reachable (srcDirAt src) srcDir q" "map_of src q = Some d"
        "?fn st q (Inr d) = (r', st')"
      then show "?I st'" using step reachableD(1) by blast
    next
      fix st q err r' st'
      assume "?I st" and "?fn st q (Inl err) = (r', st')"
      then show "?I st'" using syncFn_Inl by blast
    qed
    then show ?thesis by simp
  qed
  have walk_fails: "fst (WalkDir e src srcDir ?fn (dstFiles, fs0)) \<noteq> None"
    if I0: "map_of fs0 ?x = Some ?v" for dstFiles fs0
  proof (cases "faults e ''lstat'' srcDir")
    case (Some en)
    then show ?thesis by (simp add: WalkDir_def syncFn_def)
  next
    case None
    from root obtain d where d: "map_of src srcDir = Some d" by auto
    let ?qs = "walkPaths (srcDirAt src) (map fst src) srcDir"
    have mem: "?q0 \<in> set ?qs" using key assms(2) by (simp add: walkPaths_set)
    have sub: "set ?qs \<subseteq> {q. prefix srcDir q}"
      using reachableD(1) by (auto simp: walkPaths_set)
    have "fst (WalkDir_from e src ?fn ?qs (dstFiles, fs0)) \<noteq> None"
    proof (rule WalkDir_from_fails[where I="?I" and Q="{q. prefix srcDir q}" and ?q0.0="?q0",
          OF _ mem assms(1) sub])
      show "?I (dstFiles, fs0)" using I0 by simp
    next
      fix st assume "?I st"
      then show "fst (?fn st ?q0 (Inr (SDir dm dt ds))) \<noteq> None" by (rule at_q0)
    next
      fix st q d r' st'
      assume "?I st" "q \<in> {q. prefix srcDir q}" "map_of src q = Some d"
        "?fn st q (Inr d) = (r', st')"
      then show "?I st'" using step by blast
    next
      fix st q err
      show "fst (?fn st q (Inl err)) \<noteq> None" by (rule syncFn_Inl_fails)
    qed
    with None d show ?thesis by (simp add: WalkDir_def)
  qed
  show ?thesis
  proof (cases rule: Dirs_cases[where e=e and fs=fs and dstDir=dstDir and src=src and srcDir=srcDir and del=deleteMissing])
    case (mk err fs0)
    with fs0 show ?thesis by simp
  next
    case (listing fs0 err dstFiles)
    with fs0 show ?thesis by simp
  next
    case (walk fs0 dstFiles err dstFiles' fs1)
    with fs0 walk_inv[OF walk(3)] show ?thesis by simp
  next
    case (complete fs0 dstFiles dstFiles' fs1)
    with fs0 have "map_of fs0 ?x = Some ?v" by simp
    from walk_fails[OF this, of dstFiles] complete(3) show ?thesis by simp
  qed
qed

theorem type_collision_aborts_witness:
  "fst (Dirs quiet nestedSrc [''src''] collideDst [''dst''] True) \<noteq> None \<and>
   map_of (snd (Dirs quiet nestedSrc [''src''] collideDst [''dst''] True)) [''dst'', ''nested'']
     = Some (File ''f'' 1 420)"
proof -
  have a: "map_of nestedSrc ([''src''] @ [''nested'']) = Some (SDir 493 5 4096)"
    by (simp add: nestedSrc_def)
  have b: "reachable (srcDirAt nestedSrc) [''src''] ([''src''] @ [''nested''])"
    by (simp add: reachable_def srcDirAt_def nestedSrc_def)
  have c: "map_of collideDst ([''dst''] @ [''nested'']) = Some (File ''f'' 1 420)"
    by (simp add: collideDst_def)
  show ?thesis
    using type_collision_aborts[OF a b c, of quiet True] by simp
qed

end
